theory Spec2Isabelle
  imports Complex_Main "HOL-Library.Multiset"
begin

section \<open>Conventions of the embedding\<close>

text \<open>
  The development embeds the coordination plane of the trading system:
  \<^verbatim>\<open>shared/central_router.py\<close> (circuit breaker, central router) and
  \<^verbatim>\<open>shared/a2a_communication.py\<close> (agent registry, message router, collaboration
  orchestrator).

  \<^item> A \<^verbatim>\<open>datetime\<close> is an \<open>int\<close>: microseconds since an arbitrary epoch (the
    resolution of Python's datetime). A \<^verbatim>\<open>timedelta\<close> is the difference of two.
  \<^item> A Python \<^verbatim>\<open>float\<close> is a \<open>real\<close>: rounding is not modelled.
  \<^item> A Python \<^verbatim>\<open>dict\<close> whose iteration order matters is an association list in
    insertion order; a \<^verbatim>\<open>defaultdict\<close> is a total function.
  \<^item> Every \<^verbatim>\<open>raise\<close> is a value \<open>Inl e\<close> of a sum type.
\<close>

datatype py_error = KeyError | ValueError | IndexError | ZeroDivisionError | TimeoutError

subsection \<open>Python builtins used by the source\<close>

text \<open>\<^verbatim>\<open>d[k] = v\<close> on a dict: an existing key keeps its position, a new key goes last.\<close>

fun dict_set :: "('k \<times> 'v) list \<Rightarrow> 'k \<Rightarrow> 'v \<Rightarrow> ('k \<times> 'v) list" where
  "dict_set [] k v = [(k, v)]"
| "dict_set ((k', v') # d) k v = (if k' = k then (k, v) # d else (k', v') # dict_set d k v)"

text \<open>\<^verbatim>\<open>d.get(k, default)\<close>.\<close>

fun dict_get :: "('k \<times> 'v) list \<Rightarrow> 'k \<Rightarrow> 'v \<Rightarrow> 'v" where
  "dict_get [] k dflt = dflt"
| "dict_get ((k', v') # d) k dflt = (if k' = k then v' else dict_get d k dflt)"

text \<open>\<^verbatim>\<open>del d[k]\<close>, for a key that is present.\<close>

definition dict_del :: "('k \<times> 'v) list \<Rightarrow> 'k \<Rightarrow> ('k \<times> 'v) list" where
  "dict_del d k = filter (\<lambda>kv. fst kv \<noteq> k) d"

text \<open>
  \<^verbatim>\<open>max(xs, key=f)\<close> and \<^verbatim>\<open>min(xs, key=f)\<close> on a non-empty sequence: the first
  element, in iteration order, whose key is maximal (minimal). The accumulator is the best
  element so far; it is replaced only by a strictly better one.
\<close>

fun max_from :: "('a \<Rightarrow> 'b::linorder) \<Rightarrow> 'a \<Rightarrow> 'a list \<Rightarrow> 'a" where
  "max_from f best [] = best"
| "max_from f best (x # xs) = max_from f (if f best < f x then x else best) xs"

fun min_from :: "('a \<Rightarrow> 'b::linorder) \<Rightarrow> 'a \<Rightarrow> 'a list \<Rightarrow> 'a" where
  "min_from f best [] = best"
| "min_from f best (x # xs) = min_from f (if f x < f best then x else best) xs"

text \<open>\<^verbatim>\<open>xs.remove(x)\<close>: deletes the first occurrence, raises \<^verbatim>\<open>ValueError\<close> if there is none.\<close>

definition list_remove :: "'a list \<Rightarrow> 'a \<Rightarrow> py_error + 'a list" where
  "list_remove xs x = (if x \<in> set xs then Inr (remove1 x xs) else Inl ValueError)"

text \<open>
  \<^verbatim>\<open>timedelta.seconds\<close>: the seconds field of the normalised triple (days, seconds,
  microseconds), between 0 and 86399. It is not \<^verbatim>\<open>total_seconds()\<close>: whole days are
  dropped.
\<close>

definition td_seconds :: "int \<Rightarrow> int" where
  "td_seconds d = (d div 1000000) mod 86400"

definition seconds :: "int \<Rightarrow> int" where
  "seconds n = n * 1000000"

section \<open>central\_router.py: CircuitBreaker\<close>

datatype cb_state = Closed | Open | HalfOpen

record circuit_breaker =
  threshold :: int
  timeout :: int
  failure_count :: int
  last_failure :: "int option"
  state :: cb_state

text \<open>\<^verbatim>\<open>CircuitBreaker(threshold=5, timeout=60)\<close>.\<close>

definition CircuitBreaker :: "int \<Rightarrow> int \<Rightarrow> circuit_breaker" where
  "CircuitBreaker th tmo =
     \<lparr>threshold = th, timeout = tmo, failure_count = 0, last_failure = None, state = Closed\<rparr>"

definition record_success :: "circuit_breaker \<Rightarrow> circuit_breaker" where
  "record_success b = b\<lparr>failure_count := 0, state := Closed\<rparr>"

text \<open>The first argument is the reading of \<^verbatim>\<open>datetime.now()\<close>.\<close>

definition record_failure :: "int \<Rightarrow> circuit_breaker \<Rightarrow> circuit_breaker" where
  "record_failure now b =
     (let b1 = b\<lparr>failure_count := failure_count b + 1, last_failure := Some now\<rparr>
      in if threshold b1 \<le> failure_count b1 then b1\<lparr>state := Open\<rparr> else b1)"

text \<open>\<^verbatim>\<open>can_execute\<close> returns its answer and the breaker, whose state it may change.\<close>

definition can_execute :: "int \<Rightarrow> circuit_breaker \<Rightarrow> bool \<times> circuit_breaker" where
  "can_execute now b =
     (case state b of
        Closed \<Rightarrow> (True, b)
      | Open \<Rightarrow>
          (case last_failure b of
             Some lf \<Rightarrow>
               if timeout b < td_seconds (now - lf) then (True, b\<lparr>state := HalfOpen\<rparr>)
               else (False, b)
           | None \<Rightarrow> (False, b))
      | HalfOpen \<Rightarrow> (True, b))"

text \<open>A run of failures, recorded at the given clock readings in order.\<close>

definition record_failures :: "int list \<Rightarrow> circuit_breaker \<Rightarrow> circuit_breaker" where
  "record_failures ts b = foldl (\<lambda>b t. record_failure t b) b ts"

section \<open>central\_router.py: CentralRouter\<close>

datatype routing_strategy = ROUND_ROBIN | LEAST_LOADED | RANDOM | STICKY_SESSION | PRIORITY_BASED

datatype agent_status = HEALTHY | DEGRADED | UNHEALTHY | OFFLINE

text \<open>\<^verbatim>\<open>AgentInstance\<close>; \<^verbatim>\<open>version\<close> and \<^verbatim>\<open>metadata\<close> are never read.\<close>

record agent_instance =
  agent_id :: string
  agent_type :: string
  capabilities :: "string list"
  endpoint :: string
  status :: agent_status
  last_heartbeat :: "int option"
  load_factor :: real
  message_count :: int
  error_count :: int

record router_stats =
  messages_routed :: int
  routing_errors :: int
  agents_registered :: int
  circuit_breaker_trips :: int

text \<open>The subjects the router publishes to.\<close>

datatype topic = AgentMessages string | AgentUpdates | RouterStats

text \<open>
  The state of the router. \<^verbatim>\<open>agents\<close> is a dict in insertion order; \<^verbatim>\<open>agent_types\<close>,
  \<^verbatim>\<open>capabilities_index\<close> and \<^verbatim>\<open>routing_counters\<close> are defaultdicts. The key of a routing
  counter is the string \<^verbatim>\<open>"rr_" + str(hash(tuple(agents)))\<close>, which the hash determines. The
  last two fields record the dealings with the outside: every call of
  \<^verbatim>\<open>nats_client.publish\<close> with its subject and whether it succeeded, and the number of calls
  of \<^verbatim>\<open>random.choice\<close>.
\<close>

record central_router =
  agents :: "(string \<times> agent_instance) list"
  agent_types :: "string \<Rightarrow> string list"
  capabilities_index :: "string \<Rightarrow> string list"
  routing_counters :: "int \<Rightarrow> int"
  circuit_breakers :: "string \<rightharpoonup> circuit_breaker"
  stats :: router_stats
  published :: "(topic \<times> bool) list"
  random_draws :: nat

text \<open>
  What the router does not determine: Python's hash of a tuple of strings, whether the
  n-th publish succeeds (it raises otherwise), and the n-th random number.
\<close>

record environment =
  tuple_hash :: "string list \<Rightarrow> int"
  publish_ok :: "nat \<Rightarrow> bool"
  random_number :: "nat \<Rightarrow> nat"

definition CentralRouter :: central_router where
  "CentralRouter =
     \<lparr>agents = [], agent_types = (\<lambda>t. []), capabilities_index = (\<lambda>c. []),
      routing_counters = (\<lambda>k. 0), circuit_breakers = Map.empty,
      stats = \<lparr>messages_routed = 0, routing_errors = 0, agents_registered = 0,
               circuit_breaker_trips = 0\<rparr>,
      published = [], random_draws = 0\<rparr>"

definition publish :: "environment \<Rightarrow> topic \<Rightarrow> central_router \<Rightarrow> bool \<times> central_router" where
  "publish env t r =
     (let ok = publish_ok env (length (published r))
      in (ok, r\<lparr>published := published r @ [(t, ok)]\<rparr>))"

text \<open>
  \<^verbatim>\<open>register_agent\<close>. The notification to the other agents comes last; when it raises, the
  exception is logged and the registration stays.
\<close>

definition register_agent :: "environment \<Rightarrow> agent_instance \<Rightarrow> central_router \<Rightarrow> central_router" where
  "register_agent env agent_instance r =
     (let r1 = r\<lparr>agents := dict_set (agents r) (agent_id agent_instance) agent_instance\<rparr>;
          r2 = r1\<lparr>agent_types := (agent_types r1)
                 (agent_type agent_instance :=
                    agent_types r1 (agent_type agent_instance) @ [agent_id agent_instance])\<rparr>;
          r3 = r2\<lparr>capabilities_index :=
                 foldl (\<lambda>idx capability. idx(capability := idx capability @ [agent_id agent_instance]))
                   (capabilities_index r2) (capabilities agent_instance)\<rparr>;
          r4 = r3\<lparr>circuit_breakers := (circuit_breakers r3)
                 (agent_id agent_instance \<mapsto> CircuitBreaker 5 60)\<rparr>;
          r5 = r4\<lparr>stats := (stats r4)\<lparr>agents_registered := agents_registered (stats r4) + 1\<rparr>\<rparr>
      in snd (publish env AgentUpdates r5))"

text \<open>
  \<^verbatim>\<open>_unregister_agent\<close>. \<^verbatim>\<open>list.remove\<close> on the type index raises \<^verbatim>\<open>ValueError\<close> when
  the id is not there; nothing has been changed at that point.
\<close>

definition unregister_agent :: "string \<Rightarrow> central_router \<Rightarrow> py_error + central_router" where
  "unregister_agent aid r =
     (case map_of (agents r) aid of
        None \<Rightarrow> Inr r
      | Some agent \<Rightarrow>
          (case list_remove (agent_types r (agent_type agent)) aid of
             Inl e \<Rightarrow> Inl e
           | Inr ids \<Rightarrow>
               Inr (r\<lparr>agent_types := (agent_types r)(agent_type agent := ids),
                      capabilities_index :=
                        foldl (\<lambda>idx capability. idx(capability := remove1 aid (idx capability)))
                          (capabilities_index r) (capabilities agent),
                      circuit_breakers := (circuit_breakers r)(aid := None),
                      agents := dict_del (agents r) aid\<rparr>)))"

text \<open>\<^verbatim>\<open>_handle_agent_heartbeat\<close>, given the id and the load factor of the message.\<close>

definition handle_agent_heartbeat :: "int \<Rightarrow> string \<Rightarrow> real \<Rightarrow> central_router \<Rightarrow> central_router" where
  "handle_agent_heartbeat now aid load r =
     (case map_of (agents r) aid of
        None \<Rightarrow> r
      | Some agent \<Rightarrow>
          r\<lparr>agents := dict_set (agents r) aid
               (agent\<lparr>last_heartbeat := Some now, status := HEALTHY, load_factor := load\<rparr>)\<rparr>)"

subsection \<open>Periodic tasks\<close>

text \<open>One round of the loop of \<^verbatim>\<open>_health_monitor_task\<close>, for one agent and for all.\<close>

definition age_status :: "int \<Rightarrow> agent_instance \<Rightarrow> agent_instance" where
  "age_status current_time agent =
     (case last_heartbeat agent of
        None \<Rightarrow> agent
      | Some hb \<Rightarrow>
          let time_since_heartbeat = current_time - hb
          in if seconds 60 < time_since_heartbeat then agent\<lparr>status := OFFLINE\<rparr>
             else if seconds 30 < time_since_heartbeat then agent\<lparr>status := DEGRADED\<rparr>
             else agent)"

definition health_monitor_pass :: "int \<Rightarrow> central_router \<Rightarrow> central_router" where
  "health_monitor_pass current_time r =
     r\<lparr>agents := map (\<lambda>(aid, agent). (aid, age_status current_time agent)) (agents r)\<rparr>"

text \<open>
  One round of the loop of \<^verbatim>\<open>_cleanup_task\<close>. An exception of \<^verbatim>\<open>_unregister_agent\<close> ends
  the round: it is logged and the agents that follow are kept.
\<close>

definition is_stale :: "int \<Rightarrow> agent_instance \<Rightarrow> bool" where
  "is_stale current_time agent =
     (status agent = OFFLINE \<and>
      (case last_heartbeat agent of
         None \<Rightarrow> False
       | Some hb \<Rightarrow> seconds (5 * 60) < current_time - hb))"

fun unregister_all :: "string list \<Rightarrow> central_router \<Rightarrow> central_router" where
  "unregister_all [] r = r"
| "unregister_all (aid # rest) r =
     (case unregister_agent aid r of
        Inl e \<Rightarrow> r
      | Inr r1 \<Rightarrow> unregister_all rest r1)"

definition cleanup_pass :: "int \<Rightarrow> central_router \<Rightarrow> central_router" where
  "cleanup_pass current_time r =
     (let offline_agents = map fst (filter (\<lambda>(aid, agent). is_stale current_time agent) (agents r))
      in unregister_all offline_agents r)"

subsection \<open>Routing\<close>

text \<open>
  A function that may raise after it has changed the router returns the router in both
  cases.
\<close>

type_synonym 'a raising = "(py_error \<times> central_router) + ('a \<times> central_router)"

text \<open>
  \<^verbatim>\<open>_select_agent\<close>. Round robin divides by the number of agents; \<^verbatim>\<open>min\<close> raises
  \<^verbatim>\<open>ValueError\<close> on an empty list and its key function \<^verbatim>\<open>KeyError\<close> on an unknown agent;
  \<^verbatim>\<open>random.choice\<close> raises \<^verbatim>\<open>IndexError\<close> on an empty list.
\<close>

definition round_robin :: "environment \<Rightarrow> string list \<Rightarrow> central_router \<Rightarrow> string raising" where
  "round_robin env ags r =
     (if ags = [] then Inl (ZeroDivisionError, r)
      else
        let key = tuple_hash env ags;
            counter = (routing_counters r key + 1) mod int (length ags);
            r1 = r\<lparr>routing_counters := (routing_counters r)(key := counter)\<rparr>
        in Inr (ags ! nat counter, r1))"

definition load_of :: "central_router \<Rightarrow> string \<Rightarrow> real" where
  "load_of r aid = (case map_of (agents r) aid of None \<Rightarrow> 0 | Some agent \<Rightarrow> load_factor agent)"

definition least_loaded :: "string list \<Rightarrow> central_router \<Rightarrow> string raising" where
  "least_loaded ags r =
     (case ags of
        [] \<Rightarrow> Inl (ValueError, r)
      | a # rest \<Rightarrow>
          if list_ex (\<lambda>aid. map_of (agents r) aid = None) ags then Inl (KeyError, r)
          else Inr (min_from (load_of r) a rest, r))"

definition random_choice :: "environment \<Rightarrow> string list \<Rightarrow> central_router \<Rightarrow> string raising" where
  "random_choice env ags r =
     (if ags = [] then Inl (IndexError, r)
      else Inr (ags ! (random_number env (random_draws r) mod length ags),
                r\<lparr>random_draws := random_draws r + 1\<rparr>))"

fun select_agent ::
  "environment \<Rightarrow> string list \<Rightarrow> routing_strategy \<Rightarrow> central_router \<Rightarrow> string raising" where
  "select_agent env ags ROUND_ROBIN r = round_robin env ags r"
| "select_agent env ags LEAST_LOADED r = least_loaded ags r"
| "select_agent env ags RANDOM r = random_choice env ags r"
| "select_agent env ags strategy r = round_robin env ags r"










text \<open>A number of selections in a row from the same list of agents.\<close>

fun select_many ::
  "environment \<Rightarrow> string list \<Rightarrow> routing_strategy \<Rightarrow> nat \<Rightarrow> central_router \<Rightarrow>
     (string list) raising" where
  "select_many env ags strategy 0 r = Inr ([], r)"
| "select_many env ags strategy (Suc n) r =
     (case select_agent env ags strategy r of
        Inl e \<Rightarrow> Inl e
      | Inr (a, r1) \<Rightarrow>
          (case select_many env ags strategy n r1 of
             Inl e \<Rightarrow> Inl e
           | Inr (sel, r2) \<Rightarrow> Inr (a # sel, r2)))"

text \<open>
  The registry is in order when no id is registered twice in \<^verbatim>\<open>agents\<close> (it is a dict)
  and every registered agent is in the index of its type.
\<close>

definition registry_in_order :: "central_router \<Rightarrow> bool" where
  "registry_in_order r =
     (distinct (map fst (agents r)) \<and>
      list_all (\<lambda>(aid, agent). aid \<in> set (agent_types r (agent_type agent))) (agents r))"

section \<open>a2a\_communication.py: CollaborationOrchestrator\<close>

subsection \<open>Consensus\<close>

text \<open>
  A Python value is \<^verbatim>\<open>None\<close> or another value; the type parameter stands for the
  hashable values an agent may send as its decision, compared by \<^verbatim>\<open>==\<close>. The content of
  a response is a \<^verbatim>\<open>Dict[str, Any]\<close>.
\<close>

datatype 'a pyval = PyNone | PyVal 'a

type_synonym 'a content = "string \<rightharpoonup> 'a pyval"

record 'a consensus_result =
  consensus_achieved :: bool
  agreement_score :: real
  final_decision :: "'a pyval"
  dissenting_agents :: "string list"

text \<open>\<^verbatim>\<open>r.get("decision")\<close>: \<^verbatim>\<open>None\<close> when the key is missing.\<close>

definition get_decision :: "'a content \<Rightarrow> 'a pyval" where
  "get_decision r = (case r ''decision'' of None \<Rightarrow> PyNone | Some v \<Rightarrow> v)"

text \<open>The loop \<^verbatim>\<open>vote_counts[decision] = vote_counts.get(decision, 0) + 1\<close>.\<close>

definition count_votes :: "'a pyval list \<Rightarrow> ('a pyval \<times> int) list" where
  "count_votes decisions = foldl (\<lambda>vc d. dict_set vc d (dict_get vc d 0 + 1)) [] decisions"

text \<open>
  \<^verbatim>\<open>_analyze_consensus(responses)\<close>. The dict of responses is in insertion order;
  \<^verbatim>\<open>max\<close> of an empty sequence raises \<^verbatim>\<open>ValueError\<close>.
\<close>

definition analyze_consensus ::
  "(string \<times> 'a content) list \<Rightarrow> py_error + 'a consensus_result" where
  "analyze_consensus responses =
     (if responses = [] then
        Inr \<lparr>consensus_achieved = False, agreement_score = 0, final_decision = PyNone,
             dissenting_agents = []\<rparr>
      else
        let decisions = map get_decision (filter (\<lambda>r. r ''decision'' \<noteq> None) (map snd responses))
        in if decisions = [] then
             Inr \<lparr>consensus_achieved = False, agreement_score = 0, final_decision = PyNone,
                  dissenting_agents = map fst responses\<rparr>
           else
             (case count_votes decisions of
                [] \<Rightarrow> Inl ValueError
              | vc # vcs \<Rightarrow>
                  let majority_decision = max_from snd vc vcs;
                      majority_count = snd majority_decision;
                      total_responses = int (length decisions);
                      score = real_of_int majority_count / real_of_int total_responses
                  in Inr \<lparr>consensus_achieved = (0.6 \<le> score),
                          agreement_score = score,
                          final_decision = fst majority_decision,
                          dissenting_agents =
                            map fst (filter (\<lambda>(agent_id, response).
                                       get_decision response \<noteq> fst majority_decision) responses)\<rparr>))"

text \<open>
  An entry of \<^verbatim>\<open>active_collaborations\<close>. Its keys \<^verbatim>\<open>type\<close>, \<^verbatim>\<open>topic\<close>,
  \<^verbatim>\<open>started_at\<close> and \<^verbatim>\<open>timeout\<close> are written once and never read.
\<close>

record 'a collaboration =
  participants :: "string list"
  responses :: "(string \<times> 'a content) list"

record 'a orchestrator =
  active_collaborations :: "string \<rightharpoonup> 'a collaboration"

text \<open>
  A response message, as far as \<^verbatim>\<open>handle_consensus_response\<close> reads it: the sender, the
  content, and \<^verbatim>\<open>content.get("collaboration_id")\<close>.
\<close>

record 'a consensus_response =
  response_sender :: string
  response_collaboration :: "string option"
  response_content :: "'a content"

definition handle_consensus_response ::
  "'a consensus_response \<Rightarrow> 'a orchestrator \<Rightarrow> 'a orchestrator" where
  "handle_consensus_response m orch =
     (case response_collaboration m of
        None \<Rightarrow> orch
      | Some cid \<Rightarrow>
          (case active_collaborations orch cid of
             None \<Rightarrow> orch
           | Some c \<Rightarrow>
               orch\<lparr>active_collaborations := (active_collaborations orch)
                 (cid \<mapsto> c\<lparr>responses :=
                    dict_set (responses c) (response_sender m) (response_content m)\<rparr>)\<rparr>))"

text \<open>
  The polling loop of \<^verbatim>\<open>_collect_consensus_responses\<close>. The schedule lists, for each
  \<^verbatim>\<open>asyncio.sleep(0.1)\<close> that starts before the deadline, the response messages handled
  while the loop sleeps; when the schedule is used up the deadline has passed.
\<close>

fun wait_for_responses ::
  "string \<Rightarrow> 'a consensus_response list list \<Rightarrow> 'a orchestrator \<Rightarrow> 'a orchestrator" where
  "wait_for_responses cid [] orch = orch"
| "wait_for_responses cid (batch # rest) orch =
     (case active_collaborations orch cid of
        None \<Rightarrow> orch
      | Some c \<Rightarrow>
          if length (participants c) \<le> length (responses c) then orch
          else wait_for_responses cid rest
                 (foldl (\<lambda>orch m. handle_consensus_response m orch) orch batch))"

record 'a consensus_report = "'a consensus_result" +
  collaboration_id :: string
  report_responses :: "(string \<times> 'a content) list"

definition collect_consensus_responses ::
  "string \<Rightarrow> 'a consensus_response list list \<Rightarrow> 'a orchestrator \<Rightarrow>
     py_error + ('a consensus_report \<times> 'a orchestrator)" where
  "collect_consensus_responses cid schedule orch =
     (case active_collaborations orch cid of
        None \<Rightarrow> Inl KeyError
      | Some c0 \<Rightarrow>
          let orch1 = wait_for_responses cid schedule orch in
          (case active_collaborations orch1 cid of
             None \<Rightarrow> Inl KeyError
           | Some c \<Rightarrow>
               (case analyze_consensus (responses c) of
                  Inl e \<Rightarrow> Inl e
                | Inr res \<Rightarrow>
                    Inr (\<lparr>consensus_achieved = consensus_achieved res,
                          agreement_score = agreement_score res,
                          final_decision = final_decision res,
                          dissenting_agents = dissenting_agents res,
                          collaboration_id = cid,
                          report_responses = responses c\<rparr>,
                         orch1\<lparr>active_collaborations :=
                                 (active_collaborations orch1)(cid := None)\<rparr>))))"

text \<open>
  The entry that \<^verbatim>\<open>initiate_consensus_building\<close> creates before it sends the requests
  and starts collecting.
\<close>

definition new_collaboration :: "string \<Rightarrow> string list \<Rightarrow> 'a orchestrator \<Rightarrow> 'a orchestrator" where
  "new_collaboration cid ps orch =
     orch\<lparr>active_collaborations :=
            (active_collaborations orch)(cid \<mapsto> \<lparr>participants = ps, responses = []\<rparr>)\<rparr>"

subsection \<open>Peer review\<close>

text \<open>
  The content of a review, as far as the aggregation reads it: the keys \<^verbatim>\<open>scores\<close> and
  \<^verbatim>\<open>recommendations\<close>, each of which may be missing.
\<close>

record review =
  scores :: "(string \<rightharpoonup> real) option"
  recommendations :: "string list option"

text \<open>\<^verbatim>\<open>review.get("scores", {}).get(criterion, 0.0)\<close>.\<close>

definition score_for :: "string \<Rightarrow> review \<Rightarrow> real" where
  "score_for criterion rv =
     (case scores rv of
        None \<Rightarrow> 0
      | Some sc \<Rightarrow> (case sc criterion of None \<Rightarrow> 0 | Some v \<Rightarrow> v))"

record review_result =
  review_id :: string
  overall_score :: real
  criteria_scores :: "(string \<times> real) list"
  all_recommendations :: "string set"
  consensus_level :: real
  reviewer_count :: "int option"

text \<open>One round of the loop over the criteria.\<close>

definition criterion_average :: "(string \<times> review) list \<Rightarrow> string \<Rightarrow> real" where
  "criterion_average reviews criterion =
     (let scs = map (score_for criterion) (map snd reviews)
      in if scs \<noteq> [] then sum_list scs / real (length scs) else 0)"

text \<open>
  \<^verbatim>\<open>_aggregate_peer_reviews\<close>. The recommendations go through \<^verbatim>\<open>list(set(...))\<close>, whose
  order is not determined: the result holds them as a set. The early return has no
  \<^verbatim>\<open>reviewer_count\<close>.
\<close>

definition aggregate_peer_reviews ::
  "string \<Rightarrow> (string \<times> review) list \<Rightarrow> string list \<Rightarrow> review_result" where
  "aggregate_peer_reviews rid reviews criteria =
     (if reviews = [] then
        \<lparr>review_id = rid, overall_score = 0, criteria_scores = [], all_recommendations = {},
         consensus_level = 0, reviewer_count = None\<rparr>
      else
        let cs = foldl (\<lambda>cs criterion. dict_set cs criterion (criterion_average reviews criterion))
                   [] criteria;
            overall = (if cs \<noteq> [] then sum_list (map snd cs) / real (length cs) else 0);
            recs = concat (map (\<lambda>rv. case recommendations rv of None \<Rightarrow> [] | Some l \<Rightarrow> l)
                     (map snd reviews));
            score_variance =
              (if cs \<noteq> [] then sum_list (map (\<lambda>score. (score - overall)\<^sup>2) (map snd cs))
                                  / real (length cs)
               else 0)
        in \<lparr>review_id = rid, overall_score = overall, criteria_scores = cs,
            all_recommendations = set recs,
            consensus_level = max 0 (1 - score_variance),
            reviewer_count = Some (int (length reviews))\<rparr>)"

text \<open>
  For the statement of the aggregation property, following the words of the specification:
  the score a review supplies for a criterion, if any, and the scores that the reviews
  supply for a criterion (the reviews that supply none are left out).
\<close>

definition supplied_score :: "string \<Rightarrow> review \<Rightarrow> real option" where
  "supplied_score criterion rv = (case scores rv of None \<Rightarrow> None | Some sc \<Rightarrow> sc criterion)"

definition supplied_scores :: "string \<Rightarrow> (string \<times> review) list \<Rightarrow> real list" where
  "supplied_scores criterion reviews =
     concat (map (\<lambda>rv. case supplied_score criterion rv of None \<Rightarrow> [] | Some v \<Rightarrow> [v])
               (map snd reviews))"

section \<open>a2a\_communication.py: AgentRegistry\<close>

datatype agent_capability =
    TECHNICAL_ANALYSIS | NEWS_ANALYSIS | SENTIMENT_ANALYSIS | RISK_MANAGEMENT
  | PORTFOLIO_MANAGEMENT | STRATEGY_EXECUTION | MARKET_DATA | EXECUTION | BACKTESTING
  | MACRO_ANALYSIS

text \<open>
  \<^verbatim>\<open>AgentProfile\<close>. The fields that \<^verbatim>\<open>AgentInstance\<close> of the central router has too
  carry the prefix \<open>profile\<close>; \<^verbatim>\<open>supported_patterns\<close> and \<^verbatim>\<open>metadata\<close> are never read.
\<close>

record agent_profile =
  profile_agent_id :: string
  profile_agent_type :: string
  profile_capabilities :: "agent_capability list"
  service_level :: real
  reputation_score :: real
  profile_load_factor :: real
  max_concurrent_requests :: int
  profile_last_heartbeat :: "int option"
  profile_status :: string

text \<open>
  The registry. An entry of the capabilities index is a Python \<^verbatim>\<open>set\<close> of agent ids: it is
  held as a list without duplicates; a missing key is the empty list. The list is in
  insertion order, while Python iterates a set in an order that depends on the hashes of
  its members: only what does not depend on the order of two candidates is stated about
  it.
\<close>

record agent_registry =
  registry_agents :: "string \<rightharpoonup> agent_profile"
  registry_capabilities_index :: "agent_capability \<Rightarrow> string list"

definition set_add :: "'a list \<Rightarrow> 'a \<Rightarrow> 'a list" where
  "set_add xs x = (if x \<in> set xs then xs else xs @ [x])"

definition set_discard :: "'a list \<Rightarrow> 'a \<Rightarrow> 'a list" where
  "set_discard xs x = removeAll x xs"

definition AgentRegistry :: agent_registry where
  "AgentRegistry = \<lparr>registry_agents = Map.empty, registry_capabilities_index = (\<lambda>c. [])\<rparr>"

text \<open>\<^verbatim>\<open>AgentRegistry.register_agent\<close>.\<close>

definition registry_register_agent :: "agent_profile \<Rightarrow> agent_registry \<Rightarrow> agent_registry" where
  "registry_register_agent profile reg =
     reg\<lparr>registry_agents := (registry_agents reg)(profile_agent_id profile \<mapsto> profile),
         registry_capabilities_index :=
           foldl (\<lambda>idx capability. idx(capability := set_add (idx capability) (profile_agent_id profile)))
             (registry_capabilities_index reg) (profile_capabilities profile)\<rparr>"

text \<open>\<^verbatim>\<open>AgentRegistry.unregister_agent\<close>: the answer and the registry.\<close>

definition registry_unregister_agent :: "string \<Rightarrow> agent_registry \<Rightarrow> bool \<times> agent_registry" where
  "registry_unregister_agent aid reg =
     (case registry_agents reg aid of
        None \<Rightarrow> (False, reg)
      | Some profile \<Rightarrow>
          (True,
           reg\<lparr>registry_capabilities_index :=
                 foldl (\<lambda>idx capability. idx(capability := set_discard (idx capability) aid))
                   (registry_capabilities_index reg) (profile_capabilities profile),
               registry_agents := (registry_agents reg)(aid := None)\<rparr>))"

text \<open>\<^verbatim>\<open>find_agents_by_capability\<close>: the profiles of the indexed ids that are registered.\<close>

definition find_agents_by_capability :: "agent_capability \<Rightarrow> agent_registry \<Rightarrow> agent_profile list" where
  "find_agents_by_capability capability reg =
     List.map_filter (registry_agents reg) (registry_capabilities_index reg capability)"

text \<open>The inner function \<^verbatim>\<open>score_agent\<close> of \<^verbatim>\<open>get_best_agent_for_capability\<close>.\<close>

definition score_agent :: "agent_profile \<Rightarrow> real" where
  "score_agent agent =
     (if profile_status agent \<noteq> ''active'' then 0
      else let availability_score = max 0 (1 - profile_load_factor agent)
           in reputation_score agent * 0.4 + service_level agent * 0.3 + availability_score * 0.3)"

definition get_best_agent_for_capability ::
  "agent_capability \<Rightarrow> agent_registry \<Rightarrow> agent_profile option" where
  "get_best_agent_for_capability capability reg =
     (case find_agents_by_capability capability reg of
        [] \<Rightarrow> None
      | c # cs \<Rightarrow> Some (max_from score_agent c cs))"

section \<open>a2a\_communication.py: MessageRouter\<close>

text \<open>
  \<^verbatim>\<open>AgentMessage\<close>, with the fields that the router reads or writes. A truthy
  \<^verbatim>\<open>response_timeout\<close> is one that is neither \<^verbatim>\<open>None\<close> nor 0.
\<close>

record agent_message =
  message_id :: string
  sender_id :: string
  receiver_id :: string
  ttl :: "int option"
  correlation_id :: "string option"
  requires_response :: bool
  response_timeout :: "int option"
  routing_path :: "string list"

text \<open>
  An \<^verbatim>\<open>asyncio.Future\<close> is pending until a result or an exception is set. Futures are
  objects that outlive their entry in \<^verbatim>\<open>pending_responses\<close>: the router state holds them
  in a store, and the dict maps a message id to the address of its future.
\<close>

datatype future = Pending | Result | Raised py_error

text \<open>The coroutines handed to \<^verbatim>\<open>asyncio.create_task\<close>.\<close>

datatype task = DeliverMessage agent_message | HandleResponseTimeout string int

record message_router =
  registry :: agent_registry
  message_handlers :: "string set"
  pending_responses :: "string \<rightharpoonup> nat"
  futures :: "nat \<Rightarrow> future"
  next_future :: nat
  created_tasks :: "task list"

definition track_pending_response :: "agent_message \<Rightarrow> message_router \<Rightarrow> message_router" where
  "track_pending_response message mr =
     (case response_timeout message of
        None \<Rightarrow> mr
      | Some t \<Rightarrow>
          if t = 0 then mr
          else mr\<lparr>futures := (futures mr)(next_future mr := Pending),
                  next_future := next_future mr + 1,
                  pending_responses := (pending_responses mr)(message_id message \<mapsto> next_future mr),
                  created_tasks := created_tasks mr @ [HandleResponseTimeout (message_id message) t]\<rparr>)"

text \<open>
  \<^verbatim>\<open>MessageRouter.route_message\<close>: the answer, the message (its routing path is extended
  in place) and the router.
\<close>

definition router_route_message ::
  "int \<Rightarrow> agent_message \<Rightarrow> message_router \<Rightarrow> bool \<times> agent_message \<times> message_router" where
  "router_route_message now message mr =
     (let message1 = message\<lparr>routing_path := routing_path message @ [sender_id message]\<rparr>
      in if registry_agents (registry mr) (receiver_id message1) = None then (False, message1, mr)
         else if (case ttl message1 of None \<Rightarrow> False | Some expiry \<Rightarrow> expiry < now)
           then (False, message1, mr)
         else if receiver_id message1 \<in> message_handlers mr then
           let mr1 = (if requires_response message1 then track_pending_response message1 mr else mr)
           in (True, message1, mr1\<lparr>created_tasks := created_tasks mr1 @ [DeliverMessage message1]\<rparr>)
         else (False, message1, mr))"



text \<open>\<^verbatim>\<open>wait_for_response\<close>: the future to await, or \<^verbatim>\<open>ValueError\<close>.\<close>

definition wait_for_response :: "string \<Rightarrow> message_router \<Rightarrow> py_error + nat" where
  "wait_for_response mid mr =
     (case pending_responses mr mid of None \<Rightarrow> Inl ValueError | Some a \<Rightarrow> Inr a)"





section \<open>Concrete inputs\<close>

text \<open>
  A breaker with the default threshold 5 and cooldown 60 that has recorded five failures,
  the last one at second 10.
\<close>

definition tripped :: circuit_breaker where
  "tripped =
     record_failures [seconds 6, seconds 7, seconds 8, seconds 9, seconds 10] (CircuitBreaker 5 60)"

text \<open>Three participants answer "buy", "buy" and "sell".\<close>

definition buy_buy_sell :: "(string \<times> string content) list" where
  "buy_buy_sell =
     [(''agent1'', [''decision'' \<mapsto> PyVal ''buy'']),
      (''agent2'', [''decision'' \<mapsto> PyVal ''buy'']),
      (''agent3'', [''decision'' \<mapsto> PyVal ''sell''])]"

text \<open>
  A consensus run with two participants in which three polling intervals pass before the
  deadline and no response arrives.
\<close>

definition silent_run ::
  "py_error + (string consensus_report \<times> string orchestrator)" where
  "silent_run =
     collect_consensus_responses ''c1'' [[], [], []]
       (new_collaboration ''c1'' [''agent1'', ''agent2''] \<lparr>active_collaborations = Map.empty\<rparr>)"

text \<open>
  Two reviewers score the single criterion 0.8 and 0.6; and two reviewers of whom only the
  first scores it.
\<close>

definition two_reviews :: "(string \<times> review) list" where
  "two_reviews =
     [(''reviewer1'', \<lparr>scores = Some [''accuracy'' \<mapsto> 0.8], recommendations = None\<rparr>),
      (''reviewer2'', \<lparr>scores = Some [''accuracy'' \<mapsto> 0.6], recommendations = None\<rparr>)]"

definition partial_reviews :: "(string \<times> review) list" where
  "partial_reviews =
     [(''reviewer1'', \<lparr>scores = Some [''accuracy'' \<mapsto> 0.8], recommendations = None\<rparr>),
      (''reviewer2'', \<lparr>scores = Some Map.empty, recommendations = None\<rparr>)]"

text \<open>A registry whose only agent with the sentiment capability is offline.\<close>

definition offline_profile :: agent_profile where
  "offline_profile =
     \<lparr>profile_agent_id = ''agent1'', profile_agent_type = ''sentiment'',
      profile_capabilities = [SENTIMENT_ANALYSIS], service_level = 0.9, reputation_score = 0.9,
      profile_load_factor = 0.1, max_concurrent_requests = 10, profile_last_heartbeat = None,
      profile_status = ''offline''\<rparr>"

definition offline_registry :: agent_registry where
  "offline_registry = registry_register_agent offline_profile AgentRegistry"





text \<open>
  An environment in which every publish succeeds; an agent whose last heartbeat came at
  time 0; the router after the agent has registered twice; and the router in which the
  agent has registered once and the health task has run 61 seconds after the heartbeat.
\<close>

definition calm :: environment where
  "calm = \<lparr>tuple_hash = (\<lambda>ags. int (length ags)), publish_ok = (\<lambda>n. True), random_number = (\<lambda>n. n)\<rparr>"

definition sentiment_agent :: agent_instance where
  "sentiment_agent =
     \<lparr>agent_id = ''a1'', agent_type = ''sentiment'', capabilities = [''sentiment_analysis''],
      endpoint = ''agent.a1.messages'', status = HEALTHY, last_heartbeat = Some 0,
      load_factor = 0, message_count = 0, error_count = 0\<rparr>"

definition registered_twice :: central_router where
  "registered_twice = register_agent calm sentiment_agent (register_agent calm sentiment_agent CentralRouter)"

definition silent_agent :: central_router where
  "silent_agent = health_monitor_pass (seconds 61) (register_agent calm sentiment_agent CentralRouter)"





section \<open>Properties of the circuit breaker\<close>

lemma record_failures_fields:
  "threshold (record_failures ts b) = threshold b \<and>
   timeout (record_failures ts b) = timeout b \<and>
   failure_count (record_failures ts b) = failure_count b + int (length ts)"
  unfolding record_failures_def
  by (induction ts arbitrary: b) (auto simp: record_failure_def Let_def)

lemma record_failures_snoc:
  "record_failures (ts @ [t]) b = record_failure t (record_failures ts b)"
  by (simp add: record_failures_def)

lemma record_failure_opens:
  "threshold b \<le> failure_count b + 1 \<Longrightarrow>
   record_failure t b =
     b\<lparr>failure_count := failure_count b + 1, last_failure := Some t, state := Open\<rparr>"
  by (simp add: record_failure_def Let_def)

lemma td_seconds_small:
  assumes "0 \<le> d" and "d < seconds (n + 1)"
  shows "td_seconds d \<le> n"
proof -
  have "d div 1000000 < n + 1"
    using assms by (simp add: seconds_def div_less_iff_less_mult)
  moreover have "0 \<le> d div 1000000"
    using assms by (simp add: pos_imp_zdiv_nonneg_iff)
  moreover have "(d div 1000000) mod 86400 \<le> d div 1000000"
    using calculation by (simp add: zmod_le_nonneg_dividend)
  ultimately show ?thesis by (simp add: td_seconds_def)
qed

lemma td_seconds_large:
  assumes "seconds (n + 1) \<le> d" and "d < seconds 86400"
  shows "n < td_seconds d"
proof -
  have "(n + 1) * 1000000 div 1000000 \<le> d div 1000000"
    using assms(1) unfolding seconds_def by (rule zdiv_mono1) simp
  then have "n + 1 \<le> d div 1000000"
    by simp
  moreover have "d div 1000000 < 86400"
    using assms by (simp add: seconds_def div_less_iff_less_mult)
  moreover have "0 \<le> (d div 1000000) mod 86400"
    by simp
  ultimately show ?thesis
    by (cases "0 \<le> d div 1000000") (simp_all add: td_seconds_def)
qed

lemma record_failures_reach_threshold:
  assumes "failure_count b0 = 0" and "1 \<le> threshold b0" and "length ts = nat (threshold b0)"
  shows "record_failures ts b0 =
           (record_failures (butlast ts) b0)\<lparr>failure_count := threshold b0,
              last_failure := Some (last ts), state := Open\<rparr>"
proof -
  have ne: "ts \<noteq> []" using assms by auto
  then have split: "ts = butlast ts @ [last ts]" by simp
  let ?b = "record_failures (butlast ts) b0"
  have fc: "failure_count ?b = threshold b0 - 1"
    using assms ne record_failures_fields[of "butlast ts" b0] by simp
  have th: "threshold ?b = threshold b0"
    using record_failures_fields[of "butlast ts" b0] by simp
  have "record_failures ts b0 = record_failure (last ts) ?b"
    using split record_failures_snoc[of "butlast ts" "last ts" b0] by simp
  also have "\<dots> = ?b\<lparr>failure_count := failure_count ?b + 1, last_failure := Some (last ts), state := Open\<rparr>"
    by (rule record_failure_opens) (simp add: fc th)
  finally show ?thesis by (simp add: fc)
qed

text \<open>
  Claim C3, as the code has it. After a run of \<open>threshold\<close> failures that starts from a
  failure count of 0 the breaker is open. \<^verbatim>\<open>can_execute\<close> compares the whole seconds
  elapsed since the last failure with the cooldown, strictly: it answers false, and leaves
  the breaker as it is, as long as fewer than \<open>cooldown + 1\<close> seconds have elapsed; from
  \<open>cooldown + 1\<close> seconds on (and within the first day) it answers true and moves the
  breaker to half-open. In the half-open state it answers true, a failure opens the breaker
  again, and a success sets the failure count to 0 and the state to closed.
\<close>

theorem circuit_breaker_cooldown:
  assumes "failure_count b0 = 0" and "1 \<le> threshold b0" and "length ts = nat (threshold b0)"
      and "b = record_failures ts b0"
  shows "state b = Open \<and> last_failure b = Some (last ts) \<and> failure_count b = threshold b0 \<and>
    (\<forall>now. last ts \<le> now \<and> now - last ts < seconds (timeout b0 + 1)
        \<longrightarrow> can_execute now b = (False, b)) \<and>
    (\<forall>now. seconds (timeout b0 + 1) \<le> now - last ts \<and> now - last ts < seconds 86400
        \<longrightarrow> can_execute now b = (True, b\<lparr>state := HalfOpen\<rparr>)) \<and>
    (\<forall>now. can_execute now (b\<lparr>state := HalfOpen\<rparr>) = (True, b\<lparr>state := HalfOpen\<rparr>)) \<and>
    (\<forall>now. state (record_failure now (b\<lparr>state := HalfOpen\<rparr>)) = Open) \<and>
    failure_count (record_success (b\<lparr>state := HalfOpen\<rparr>)) = 0 \<and>
    state (record_success (b\<lparr>state := HalfOpen\<rparr>)) = Closed"
proof -
  let ?p = "record_failures (butlast ts) b0"
  have b: "b = ?p\<lparr>failure_count := threshold b0, last_failure := Some (last ts), state := Open\<rparr>"
    using assms record_failures_reach_threshold[of b0 ts] by simp
  have tmo: "timeout b = timeout b0" and th: "threshold b = threshold b0"
    using assms(4) record_failures_fields[of ts b0] by simp_all
  have st: "state b = Open" and lf: "last_failure b = Some (last ts)"
    and fc: "failure_count b = threshold b0"
    by (simp_all add: b)
  have closed: "can_execute now b = (False, b)"
    if "last ts \<le> now" and "now - last ts < seconds (timeout b0 + 1)" for now
  proof -
    have "td_seconds (now - last ts) \<le> timeout b0"
      using that by (intro td_seconds_small) simp_all
    then show ?thesis by (simp add: can_execute_def st lf tmo)
  qed
  have half: "can_execute now b = (True, b\<lparr>state := HalfOpen\<rparr>)"
    if "seconds (timeout b0 + 1) \<le> now - last ts" and "now - last ts < seconds 86400" for now
  proof -
    have "timeout b0 < td_seconds (now - last ts)"
      using that by (rule td_seconds_large)
    then show ?thesis by (simp add: can_execute_def st lf tmo)
  qed
  have trial: "can_execute now (b\<lparr>state := HalfOpen\<rparr>) = (True, b\<lparr>state := HalfOpen\<rparr>)" for now
    by (simp add: can_execute_def)
  have reopen: "state (record_failure now (b\<lparr>state := HalfOpen\<rparr>)) = Open" for now
    by (simp add: record_failure_def Let_def fc th)
  have succ: "failure_count (record_success (b\<lparr>state := HalfOpen\<rparr>)) = 0"
      "state (record_success (b\<lparr>state := HalfOpen\<rparr>)) = Closed"
    by (simp_all add: record_success_def)
  show ?thesis
    using st lf fc closed half trial reopen succ by blast
qed

lemma tripped_eq: "tripped = \<lparr>threshold = 5, timeout = 60, failure_count = 5, last_failure = Some 10000000, state = Open\<rparr>"
  by (simp add: tripped_def record_failures_def record_failure_def CircuitBreaker_def seconds_def Let_def)

theorem circuit_breaker_cooldown_witness:
  "state tripped = Open \<and>
   can_execute (seconds 70) tripped = (False, tripped) \<and>
   can_execute (seconds 71) tripped = (True, tripped\<lparr>state := HalfOpen\<rparr>) \<and>
   state (record_failure (seconds 72) (tripped\<lparr>state := HalfOpen\<rparr>)) = Open \<and>
   failure_count (record_success (tripped\<lparr>state := HalfOpen\<rparr>)) = 0"
proof -
  let ?ts = "[seconds 6, seconds 7, seconds 8, seconds 9, seconds 10]"
  have h: "failure_count (CircuitBreaker 5 60) = 0" "1 \<le> threshold (CircuitBreaker 5 60)"
     "length ?ts = nat (threshold (CircuitBreaker 5 60))" "tripped = record_failures ?ts (CircuitBreaker 5 60)"
    by (simp_all add: CircuitBreaker_def tripped_def)
  show ?thesis
    using circuit_breaker_cooldown [OF h] by (simp add: CircuitBreaker_def seconds_def)
qed

text \<open>
  Claim C3 as stated fails at the boundary: exactly \<open>cooldown\<close> = 60 seconds after the last
  failure the open breaker still answers false.
\<close>

theorem circuit_breaker_cooldown_counterexample:
  "seconds 70 - seconds 10 = seconds 60 \<and> timeout tripped = 60 \<and> last_failure tripped = Some (seconds 10) \<and>
   state tripped = Open \<and> fst (can_execute (seconds 70) tripped) = False"
  by (simp add: tripped_eq can_execute_def td_seconds_def seconds_def)

section \<open>Properties of the Python builtins\<close>

lemma dict_get_map_of: "dict_get d k dflt = (case map_of d k of None \<Rightarrow> dflt | Some v \<Rightarrow> v)"
  by (induction d) auto

lemma map_of_dict_set: "map_of (dict_set d k v) = (map_of d)(k \<mapsto> v)"
  by (induction d) (auto simp: fun_eq_iff)

lemma keys_dict_set: "fst ` set (dict_set d k v) = insert k (fst ` set d)"
proof -
  have "fst ` set (dict_set d k v) = dom (map_of (dict_set d k v))"
    by (simp add: dom_map_of_conv_image_fst)
  also have "\<dots> = insert k (dom (map_of d))"
    by (simp add: map_of_dict_set)
  finally show ?thesis by (simp add: dom_map_of_conv_image_fst)
qed

lemma distinct_dict_set: "distinct (map fst d) \<Longrightarrow> distinct (map fst (dict_set d k v))"
  by (induction d) (auto simp: keys_dict_set)

lemma max_from_mem: "max_from f b xs \<in> set (b # xs)"
  by (induction xs arbitrary: b) (auto split: if_splits)

lemma max_from_ge_best: "f b \<le> f (max_from f b xs)"
proof (induction xs arbitrary: b)
  case Nil then show ?case by simp
next
  case (Cons x xs)
  have "f b \<le> f (if f b < f x then x else b)" by (simp add: less_imp_le)
  also have "\<dots> \<le> f (max_from f (if f b < f x then x else b) xs)" by (rule Cons.IH)
  finally show ?case by simp
qed

lemma max_from_max: "x \<in> set (b # xs) \<Longrightarrow> f x \<le> f (max_from f b xs)"
proof (induction xs arbitrary: b)
  case Nil then show ?case by simp
next
  case (Cons y ys)
  let ?b = "if f b < f y then y else b"
  from Cons.prems consider "x = b" | "x = y" | "x \<in> set ys" by auto
  then show ?case
  proof cases
    case 1
    have "f b \<le> f ?b" by (simp add: less_imp_le)
    also have "\<dots> \<le> f (max_from f ?b ys)" by (rule max_from_ge_best)
    finally show ?thesis using 1 by simp
  next
    case 2
    have "f y \<le> f ?b" by (simp add: not_less)
    also have "\<dots> \<le> f (max_from f ?b ys)" by (rule max_from_ge_best)
    finally show ?thesis using 2 by simp
  next
    case 3
    then have "f x \<le> f (max_from f ?b ys)" using Cons.IH[of ?b] by simp
    then show ?thesis by simp
  qed
qed

lemma fold_votes:
  "distinct (map fst vc) \<Longrightarrow>
   distinct (map fst (foldl (\<lambda>vc d. dict_set vc d (dict_get vc d 0 + 1)) vc ds)) \<and>
   fst ` set (foldl (\<lambda>vc d. dict_set vc d (dict_get vc d 0 + 1)) vc ds) = fst ` set vc \<union> set ds \<and>
   (\<forall>d. dict_get (foldl (\<lambda>vc d. dict_set vc d (dict_get vc d 0 + 1)) vc ds) d 0
        = dict_get vc d 0 + int (count_list ds d))"
proof (induction ds arbitrary: vc)
  case Nil then show ?case by simp
next
  case (Cons x xs)
  let ?vc = "dict_set vc x (dict_get vc x 0 + 1)"
  have d: "distinct (map fst ?vc)" using Cons.prems by (rule distinct_dict_set)
  have g: "dict_get ?vc d 0 = dict_get vc d 0 + (if d = x then 1 else 0)" for d
    by (simp add: dict_get_map_of map_of_dict_set)
  show ?case using Cons.IH[OF d] by (auto simp: keys_dict_set g)
qed

lemma count_votes_props:
  "distinct (map fst (count_votes ds)) \<and> fst ` set (count_votes ds) = set ds \<and>
   (\<forall>d. dict_get (count_votes ds) d 0 = int (count_list ds d))"
  using fold_votes[of "[]" ds] by (simp add: count_votes_def)

lemma count_votes_entry:
  assumes "(d, n) \<in> set (count_votes ds)"
  shows "d \<in> set ds \<and> n = int (count_list ds d)"
proof -
  have dist: "distinct (map fst (count_votes ds))" using count_votes_props by blast
  then have "map_of (count_votes ds) d = Some n" using assms by simp
  then have "dict_get (count_votes ds) d 0 = n" by (simp add: dict_get_map_of)
  moreover have "d \<in> fst ` set (count_votes ds)" using assms by force
  ultimately show ?thesis using count_votes_props[of ds] by auto
qed

lemma count_votes_complete:
  assumes "d \<in> set ds"
  shows "(d, int (count_list ds d)) \<in> set (count_votes ds)"
proof -
  have "d \<in> fst ` set (count_votes ds)" using assms count_votes_props[of ds] by simp
  then obtain n where n: "(d, n) \<in> set (count_votes ds)" by auto
  then show ?thesis using count_votes_entry[OF n] by simp
qed


section \<open>Consensus analysis\<close>

lemma analyze_consensus_decided:
  assumes ne: "rs \<noteq> []" and all: "\<forall>r \<in> set rs. snd r ''decision'' \<noteq> None"
  defines "ds \<equiv> map (get_decision \<circ> snd) rs"
  shows "\<exists>d. d \<in> set ds \<and> (\<forall>d'. count_list ds d' \<le> count_list ds d) \<and>
     analyze_consensus rs =
       Inr \<lparr>consensus_achieved = (0.6 \<le> real (count_list ds d) / real (length rs)),
            agreement_score = real (count_list ds d) / real (length rs),
            final_decision = d,
            dissenting_agents =
              map fst (filter (\<lambda>(agent_id, response). get_decision response \<noteq> d) rs)\<rparr>"
proof -
  have flt: "filter (\<lambda>r. r ''decision'' \<noteq> None) (map snd rs) = map snd rs"
    using all by (simp add: filter_id_conv)
  have ds: "map get_decision (filter (\<lambda>r. r ''decision'' \<noteq> None) (map snd rs)) = ds"
    unfolding flt ds_def by simp
  have dsne: "ds \<noteq> []" using ne by (simp add: ds_def)
  have len: "length ds = length rs" by (simp add: ds_def)
  have "fst ` set (count_votes ds) = set ds" using count_votes_props[of ds] by blast
  then have "count_votes ds \<noteq> []" using dsne by auto
  then obtain vc vcs where cv: "count_votes ds = vc # vcs" by (cases "count_votes ds") auto
  let ?m = "max_from snd vc vcs"
  have mem: "?m \<in> set (count_votes ds)" using max_from_mem[of snd vc vcs] by (simp add: cv)
  then have "(fst ?m, snd ?m) \<in> set (count_votes ds)" by simp
  from count_votes_entry[OF this]
  have m1: "fst ?m \<in> set ds" and m2: "snd ?m = int (count_list ds (fst ?m))" by simp_all
  have mx: "count_list ds d' \<le> count_list ds (fst ?m)" for d'
  proof (cases "d' \<in> set ds")
    case True
    then have "(d', int (count_list ds d')) \<in> set (vc # vcs)"
      using count_votes_complete[of d' ds] by (simp add: cv)
    then have "snd (d', int (count_list ds d')) \<le> snd ?m" by (rule max_from_max)
    then show ?thesis by (simp add: m2)
  next
    case False
    then show ?thesis by (simp add: count_list_0_iff)
  qed
  have "analyze_consensus rs =
       Inr \<lparr>consensus_achieved = (0.6 \<le> real (count_list ds (fst ?m)) / real (length rs)),
            agreement_score = real (count_list ds (fst ?m)) / real (length rs),
            final_decision = fst ?m,
            dissenting_agents =
              map fst (filter (\<lambda>(agent_id, response). get_decision response \<noteq> fst ?m) rs)\<rparr>"
    unfolding analyze_consensus_def ds using ne dsne by (simp add: Let_def cv m2 len)
  then show ?thesis using m1 mx by blast
qed

text \<open>
  Claim C1. When at least one response was collected and every response carries a
  \<^verbatim>\<open>decision\<close> field, the analysis returns a result (it does not raise); the final
  decision is one of the received decisions and no decision has more votes; the agreement
  score is the number of votes for it divided by the number of responses received;
  consensus is achieved exactly when the score is at least 0.6; and the dissenting agents
  are exactly the responders whose decision differs from the final one.
\<close>

theorem consensus_majority:
  assumes "rs \<noteq> []" and "\<forall>r \<in> set rs. snd r ''decision'' \<noteq> None"
  shows "\<exists>res. analyze_consensus rs = Inr res \<and>
     final_decision res \<in> set (map (get_decision \<circ> snd) rs) \<and>
     (\<forall>d. count_list (map (get_decision \<circ> snd) rs) d
            \<le> count_list (map (get_decision \<circ> snd) rs) (final_decision res)) \<and>
     agreement_score res =
       real (count_list (map (get_decision \<circ> snd) rs) (final_decision res))
         / real (length rs) \<and>
     consensus_achieved res = (0.6 \<le> agreement_score res) \<and>
     set (dissenting_agents res) =
       {a. \<exists>r. (a, r) \<in> set rs \<and> get_decision r \<noteq> final_decision res}"
proof -
  from analyze_consensus_decided[OF assms]
  obtain d where d: "d \<in> set (map (get_decision \<circ> snd) rs)"
    and mx: "\<forall>d'. count_list (map (get_decision \<circ> snd) rs) d'
                 \<le> count_list (map (get_decision \<circ> snd) rs) d"
    and eq: "analyze_consensus rs =
       Inr \<lparr>consensus_achieved =
              (0.6 \<le> real (count_list (map (get_decision \<circ> snd) rs) d) / real (length rs)),
            agreement_score =
              real (count_list (map (get_decision \<circ> snd) rs) d) / real (length rs),
            final_decision = d,
            dissenting_agents =
              map fst (filter (\<lambda>(agent_id, response). get_decision response \<noteq> d) rs)\<rparr>"
    by blast
  have "set (map fst (filter (\<lambda>(agent_id, response). get_decision response \<noteq> d) rs)) =
        {a. \<exists>r. (a, r) \<in> set rs \<and> get_decision r \<noteq> d}"
    by force
  then show ?thesis using d mx eq by simp
qed

lemma buy_buy_sell_result:
  "analyze_consensus buy_buy_sell =
     Inr \<lparr>consensus_achieved = True, agreement_score = 2 / 3, final_decision = PyVal ''buy'',
          dissenting_agents = [''agent3'']\<rparr>"
  by (simp add: analyze_consensus_def buy_buy_sell_def get_decision_def count_votes_def Let_def)

text \<open>The example of the claim: "buy", "buy", "sell".\<close>

theorem consensus_majority_witness:
  "analyze_consensus buy_buy_sell =
     Inr \<lparr>consensus_achieved = True, agreement_score = 2 / 3, final_decision = PyVal ''buy'',
          dissenting_agents = [''agent3'']\<rparr> \<and>
   count_list (map (get_decision \<circ> snd) buy_buy_sell) (PyVal ''buy'') = 2 \<and>
   length buy_buy_sell = 3"
proof -
  have h1: "buy_buy_sell \<noteq> []" by (simp add: buy_buy_sell_def)
  have h2: "\<forall>r \<in> set buy_buy_sell. snd r ''decision'' \<noteq> None" by (simp add: buy_buy_sell_def)
  show ?thesis
    using consensus_majority[OF h1 h2] buy_buy_sell_result
    by (simp add: buy_buy_sell_def get_decision_def)
qed

section \<open>Consensus runs without responses\<close>

lemma handle_other_collaboration:
  "response_collaboration m \<noteq> Some cid \<Longrightarrow>
   active_collaborations (handle_consensus_response m orch) cid = active_collaborations orch cid"
  by (auto simp: handle_consensus_response_def split: option.splits)

lemma handle_batch_other_collaboration:
  "\<forall>m \<in> set batch. response_collaboration m \<noteq> Some cid \<Longrightarrow>
   active_collaborations (foldl (\<lambda>orch m. handle_consensus_response m orch) orch batch) cid
     = active_collaborations orch cid"
  by (induction batch arbitrary: orch) (simp_all add: handle_other_collaboration)

lemma wait_without_responses:
  "\<forall>batch \<in> set schedule. \<forall>m \<in> set batch. response_collaboration m \<noteq> Some cid \<Longrightarrow>
   active_collaborations (wait_for_responses cid schedule orch) cid = active_collaborations orch cid"
proof (induction schedule arbitrary: orch)
  case Nil
  then show ?case by simp
next
  case (Cons batch rest)
  then show ?case
    by (cases "active_collaborations orch cid") (simp_all add: handle_batch_other_collaboration)
qed

text \<open>
  Claim C4, as the code has it. A consensus run starts from the entry that
  \<^verbatim>\<open>initiate_consensus_building\<close> creates. When no response for this collaboration
  arrives before the deadline, the run returns a report (it does not raise) with
  \<^verbatim>\<open>consensus_achieved\<close> false, \<^verbatim>\<open>agreement_score\<close> 0, \<^verbatim>\<open>final_decision\<close> None and an
  empty list of dissenting agents, whatever the participants are, and the collaboration is
  discarded.
\<close>

theorem consensus_without_responses:
  assumes "\<forall>batch \<in> set schedule. \<forall>m \<in> set batch. response_collaboration m \<noteq> Some cid"
  shows "\<exists>orch'. collect_consensus_responses cid schedule (new_collaboration cid ps orch) =
           Inr (\<lparr>consensus_achieved = False, agreement_score = 0, final_decision = PyNone,
                 dissenting_agents = [], collaboration_id = cid, report_responses = []\<rparr>, orch') \<and>
           active_collaborations orch' cid = None"
proof -
  let ?o = "new_collaboration cid ps orch"
  have a: "active_collaborations ?o cid = Some \<lparr>participants = ps, responses = []\<rparr>"
    by (simp add: new_collaboration_def)
  have w: "active_collaborations (wait_for_responses cid schedule ?o) cid
             = Some \<lparr>participants = ps, responses = []\<rparr>"
    using wait_without_responses[OF assms] a by simp
  show ?thesis
    by (simp add: collect_consensus_responses_def a w Let_def analyze_consensus_def)
qed

theorem consensus_without_responses_witness:
  "\<exists>orch'. silent_run =
      Inr (\<lparr>consensus_achieved = False, agreement_score = 0, final_decision = PyNone,
            dissenting_agents = [], collaboration_id = ''c1'', report_responses = []\<rparr>, orch')"
proof -
  have h: "\<forall>batch \<in> set [[], [], []]. \<forall>m \<in> set batch.
             response_collaboration (m :: string consensus_response) \<noteq> Some ''c1''"
    by simp
  show ?thesis
    unfolding silent_run_def
    using consensus_without_responses[OF h, of "[''agent1'', ''agent2'']" "\<lparr>active_collaborations = Map.empty\<rparr>"]
    by blast
qed

text \<open>
  Claim C4 as stated fails: with two participants and no response the run reports no
  dissenting agent, not the two participants.
\<close>

theorem consensus_without_responses_counterexample:
  "\<exists>rep orch'. silent_run = Inr (rep, orch') \<and> dissenting_agents rep = [] \<and>
     dissenting_agents rep \<noteq> [''agent1'', ''agent2'']"
  by (simp add: silent_run_def collect_consensus_responses_def new_collaboration_def Let_def
        analyze_consensus_def)

section \<open>Peer review aggregation\<close>

lemma score_for_supplied:
  "score_for c rv = (case supplied_score c rv of None \<Rightarrow> 0 | Some v \<Rightarrow> v)"
  by (simp add: score_for_def supplied_score_def split: option.splits)

lemma sum_score_for:
  "sum_list (map (score_for c \<circ> snd) rvs) = sum_list (supplied_scores c rvs)"
  by (induction rvs) (auto simp: supplied_scores_def score_for_supplied split: option.splits)

lemma criterion_average_eq:
  "rvs \<noteq> [] \<Longrightarrow>
   criterion_average rvs c = sum_list (supplied_scores c rvs) / real (length rvs)"
  by (simp add: criterion_average_def Let_def sum_score_for)

lemma fold_criteria:
  "distinct (map fst acc) \<Longrightarrow>
   distinct (map fst (foldl (\<lambda>cs c. dict_set cs c (g c)) acc cr)) \<and>
   fst ` set (foldl (\<lambda>cs c. dict_set cs c (g c)) acc cr) = fst ` set acc \<union> set cr \<and>
   (\<forall>c. map_of (foldl (\<lambda>cs c. dict_set cs c (g c)) acc cr) c =
        (if c \<in> set cr then Some (g c) else map_of acc c))"
proof (induction cr arbitrary: acc)
  case Nil
  then show ?case by simp
next
  case (Cons x xs)
  have d: "distinct (map fst (dict_set acc x (g x)))"
    using Cons.prems by (rule distinct_dict_set)
  show ?case
    using Cons.IH[OF d] by (auto simp: keys_dict_set map_of_dict_set)
qed

lemma sum_values:
  assumes "distinct (map fst cs)" and "\<forall>kv \<in> set cs. snd kv = g (fst kv)"
  shows "sum_list (map snd cs) = sum g (fst ` set cs)"
proof -
  have "map snd cs = map g (map fst cs)"
    using assms(2) by (induction cs) simp_all
  then have "sum_list (map snd cs) = sum_list (map g (map fst cs))"
    by (rule arg_cong)
  also have "\<dots> = sum g (set (map fst cs))"
    using assms(1) by (rule sum_list_distinct_conv_sum_set)
  finally show ?thesis by simp
qed

text \<open>
  Claim C2, as the code has it. For a non-empty dict of reviews, the aggregated score of each
  criterion is the sum of the scores supplied for it divided by the number of all reviews:
  a review that supplies no score for the criterion counts as 0.0 and stays in the
  denominator. The criteria scores have one entry for each distinct criterion, and the
  overall score is the mean of these per-criterion averages (0.0 without criteria).
\<close>

theorem peer_review_averages:
  assumes "reviews \<noteq> []"
  shows "distinct (map fst (criteria_scores (aggregate_peer_reviews rid reviews criteria))) \<and>
     fst ` set (criteria_scores (aggregate_peer_reviews rid reviews criteria)) = set criteria \<and>
     (\<forall>c \<in> set criteria.
        map_of (criteria_scores (aggregate_peer_reviews rid reviews criteria)) c =
          Some (sum_list (supplied_scores c reviews) / real (length reviews))) \<and>
     overall_score (aggregate_peer_reviews rid reviews criteria) =
       (if criteria = [] then 0
        else (\<Sum>c \<in> set criteria. sum_list (supplied_scores c reviews) / real (length reviews))
               / real (card (set criteria)))"
proof -
  let ?g = "criterion_average reviews"
  let ?cs = "foldl (\<lambda>cs c. dict_set cs c (?g c)) [] criteria"
  have cs: "criteria_scores (aggregate_peer_reviews rid reviews criteria) = ?cs"
    using assms by (simp add: aggregate_peer_reviews_def Let_def)
  have ov: "overall_score (aggregate_peer_reviews rid reviews criteria) =
      (if ?cs \<noteq> [] then sum_list (map snd ?cs) / real (length ?cs) else 0)"
    using assms by (simp add: aggregate_peer_reviews_def Let_def)
  have f: "distinct (map fst ?cs)" "fst ` set ?cs = set criteria"
      "\<And>c. map_of ?cs c = (if c \<in> set criteria then Some (?g c) else None)"
    using fold_criteria[of "[]" ?g criteria] by simp_all
  have g: "?g c = sum_list (supplied_scores c reviews) / real (length reviews)" for c
    using assms by (rule criterion_average_eq)
  have len: "length ?cs = card (set criteria)"
    using f(1) f(2) distinct_card[of "map fst ?cs"] by simp
  have empty: "?cs = [] \<longleftrightarrow> criteria = []"
    using f(2) by auto
  have vals: "\<forall>kv \<in> set ?cs. snd kv = ?g (fst kv)"
  proof
    fix kv assume kv: "kv \<in> set ?cs"
    then have "map_of ?cs (fst kv) = Some (snd kv)" using f(1) by simp
    moreover have "fst kv \<in> set criteria" using kv f(2) by force
    ultimately show "snd kv = ?g (fst kv)" by (simp add: f(3))
  qed
  have "sum_list (map snd ?cs) = sum ?g (fst ` set ?cs)"
    using f(1) vals by (rule sum_values)
  then have "sum_list (map snd ?cs) = sum ?g (set criteria)"
    unfolding f(2) .
  then have s: "sum_list (map snd ?cs) = (\<Sum>c \<in> set criteria. sum_list (supplied_scores c reviews) / real (length reviews))"
    unfolding g .
  have c1: "distinct (map fst (criteria_scores (aggregate_peer_reviews rid reviews criteria)))"
    unfolding cs by (rule f(1))
  have c2: "fst ` set (criteria_scores (aggregate_peer_reviews rid reviews criteria)) = set criteria"
    unfolding cs by (rule f(2))
  have c3: "\<forall>c \<in> set criteria.
        map_of (criteria_scores (aggregate_peer_reviews rid reviews criteria)) c =
          Some (sum_list (supplied_scores c reviews) / real (length reviews))"
    unfolding cs f(3) using g by simp
  have c4: "overall_score (aggregate_peer_reviews rid reviews criteria) =
       (if criteria = [] then 0
        else (\<Sum>c \<in> set criteria. sum_list (supplied_scores c reviews) / real (length reviews))
               / real (card (set criteria)))"
    unfolding ov s len using empty by simp
  show ?thesis
    using c1 c2 c3 c4 by blast
qed

text \<open>The example of the claim: scores 0.8 and 0.6 for a single criterion.\<close>

theorem peer_review_averages_witness:
  "criteria_scores (aggregate_peer_reviews ''r1'' two_reviews [''accuracy'']) = [(''accuracy'', 0.7)] \<and>
   supplied_scores ''accuracy'' two_reviews = [0.8, 0.6] \<and>
   overall_score (aggregate_peer_reviews ''r1'' two_reviews [''accuracy'']) = 0.7"
proof -
  have h: "two_reviews \<noteq> []" by (simp add: two_reviews_def)
  have "criteria_scores (aggregate_peer_reviews ''r1'' two_reviews [''accuracy'']) = [(''accuracy'', 0.7)]"
    by (simp add: aggregate_peer_reviews_def two_reviews_def criterion_average_def score_for_def Let_def)
  moreover have "supplied_scores ''accuracy'' two_reviews = [0.8, 0.6]"
    by (simp add: supplied_scores_def supplied_score_def two_reviews_def)
  ultimately show ?thesis
    using peer_review_averages[OF h, of "''r1''" "[''accuracy'']"] by (simp add: two_reviews_def)
qed

text \<open>
  Claim C2 as stated fails: when only one of two reviewers supplies the score 0.8, the
  average over the reviewers who supplied one would be 0.8, and the code returns 0.4.
\<close>

theorem peer_review_averages_counterexample:
  "supplied_scores ''accuracy'' partial_reviews = [0.8] \<and>
   criteria_scores (aggregate_peer_reviews ''r1'' partial_reviews [''accuracy'']) = [(''accuracy'', 0.4)] \<and>
   overall_score (aggregate_peer_reviews ''r1'' partial_reviews [''accuracy'']) = 0.4"
  by (simp add: aggregate_peer_reviews_def partial_reviews_def criterion_average_def score_for_def
        supplied_scores_def supplied_score_def Let_def)

section \<open>Best agent for a capability\<close>

lemma best_agent_none_iff:
  "get_best_agent_for_capability capability reg = None \<longleftrightarrow>
   find_agents_by_capability capability reg = []"
  by (simp add: get_best_agent_for_capability_def split: list.splits)

text \<open>
  Claim C7 at a registry in which the only candidate for the capability is offline: the code
  returns that offline agent, where the claim says that it returns none.
\<close>

theorem best_agent_all_inactive:
  "find_agents_by_capability SENTIMENT_ANALYSIS offline_registry = [offline_profile] \<and>
   profile_status offline_profile = ''offline'' \<and>
   get_best_agent_for_capability SENTIMENT_ANALYSIS offline_registry = Some offline_profile"
  by (simp add: get_best_agent_for_capability_def find_agents_by_capability_def
        offline_registry_def registry_register_agent_def AgentRegistry_def offline_profile_def
        set_add_def)

section \<open>Registration and the indices\<close>

text \<open>
  Claim C5 at a repeated registration: the second \<^verbatim>\<open>register_agent\<close> with the same id
  appends the id to the type index and to the capability index once more, and after
  \<^verbatim>\<open>_unregister_agent\<close> the id is gone from \<^verbatim>\<open>agents\<close> but still in both indices.
\<close>

theorem registration_duplicates:
  "agents registered_twice = [(''a1'', sentiment_agent)] \<and>
   agent_types registered_twice ''sentiment'' = [''a1'', ''a1''] \<and>
   capabilities_index registered_twice ''sentiment_analysis'' = [''a1'', ''a1''] \<and>
   (\<exists>r. unregister_agent ''a1'' registered_twice = Inr r \<and>
        agents r = [] \<and>
        agent_types r ''sentiment'' = [''a1''] \<and>
        capabilities_index r ''sentiment_analysis'' = [''a1''])"
  by (simp add: registered_twice_def register_agent_def CentralRouter_def sentiment_agent_def
        publish_def Let_def unregister_agent_def list_remove_def dict_del_def)

section \<open>Health aging and eviction\<close>

lemma health_lookup:
  "map_of (agents (health_monitor_pass now r)) aid = map_option (age_status now) (map_of (agents r) aid)"
  by (simp add: health_monitor_pass_def map_of_map)

lemma in_order_entry:
  assumes "registry_in_order r" and "map_of (agents r) aid = Some agent"
  shows "aid \<in> set (agent_types r (agent_type agent))"
proof -
  have "(aid, agent) \<in> set (agents r)" using assms(2) by (rule map_of_SomeD)
  then show ?thesis using assms(1) by (auto simp: registry_in_order_def list_all_iff)
qed

lemma unregister_in_order:
  assumes "registry_in_order r"
  shows "\<exists>r'. unregister_agent aid r = Inr r' \<and> agents r' = dict_del (agents r) aid \<and>
              registry_in_order r'"
proof (cases "map_of (agents r) aid")
  case None
  then have "dict_del (agents r) aid = agents r"
    by (auto simp: dict_del_def filter_id_conv map_of_eq_None_iff)
  then show ?thesis using None assms by (simp add: unregister_agent_def)
next
  case (Some agent)
  have mem: "aid \<in> set (agent_types r (agent_type agent))"
    using assms Some by (rule in_order_entry)
  let ?r = "r\<lparr>agent_types := (agent_types r)(agent_type agent := remove1 aid (agent_types r (agent_type agent))),
              capabilities_index :=
                foldl (\<lambda>idx capability. idx(capability := remove1 aid (idx capability)))
                  (capabilities_index r) (capabilities agent),
              circuit_breakers := (circuit_breakers r)(aid := None),
              agents := dict_del (agents r) aid\<rparr>"
  have eq: "unregister_agent aid r = Inr ?r"
    using Some mem by (simp add: unregister_agent_def list_remove_def)
  have d: "distinct (map fst (dict_del (agents r) aid))"
    using assms by (simp add: registry_in_order_def dict_del_def distinct_map_filter)
  have types: "\<forall>kv \<in> set (agents ?r). fst kv \<in> set (agent_types ?r (agent_type (snd kv)))"
  proof
    fix kv assume "kv \<in> set (agents ?r)"
    then have ka: "kv \<in> set (agents r)" and ne: "fst kv \<noteq> aid"
      by (auto simp: dict_del_def)
    have "fst kv \<in> set (agent_types r (agent_type (snd kv)))"
      using assms ka by (auto simp: registry_in_order_def list_all_iff)
    then show "fst kv \<in> set (agent_types ?r (agent_type (snd kv)))"
      using ne by auto
  qed
  have "distinct (map fst (agents ?r))" using d by simp
  then have "registry_in_order ?r"
    using types unfolding registry_in_order_def list_all_iff case_prod_beta by blast
  then show ?thesis using eq by simp
qed

lemma unregister_all_in_order:
  "registry_in_order r \<Longrightarrow>
   agents (unregister_all ks r) = filter (\<lambda>kv. fst kv \<notin> set ks) (agents r) \<and>
   registry_in_order (unregister_all ks r)"
proof (induction ks arbitrary: r)
  case Nil
  then show ?case by simp
next
  case (Cons k ks)
  from unregister_in_order[OF Cons.prems, of k]
  obtain r' where r': "unregister_agent k r = Inr r'" "agents r' = dict_del (agents r) k"
      "registry_in_order r'" by blast
  have "filter (\<lambda>kv. fst kv \<notin> set ks) (dict_del (agents r) k)
          = filter (\<lambda>kv. fst kv \<notin> set (k # ks)) (agents r)"
    by (auto simp: dict_del_def intro: filter_cong)
  then show ?case using Cons.IH[OF r'(3)] r' by simp
qed

lemma cleanup_agents:
  "registry_in_order r \<Longrightarrow>
   agents (cleanup_pass now r) =
     filter (\<lambda>kv. fst kv \<notin> fst ` {kv \<in> set (agents r). is_stale now (snd kv)}) (agents r)"
proof -
  assume ok: "registry_in_order r"
  have "set (map fst (filter (\<lambda>(aid, agent). is_stale now agent) (agents r)))
          = fst ` {kv \<in> set (agents r). is_stale now (snd kv)}"
    by (auto simp: image_iff)
  then show ?thesis
    using unregister_all_in_order[OF ok] by (simp add: cleanup_pass_def Let_def)
qed

lemma map_of_filter_keys:
  "map_of (filter (\<lambda>kv. P (fst kv)) xs) k = (if P k then map_of xs k else None)"
  by (induction xs) auto

lemma cleanup_lookup:
  assumes ok: "registry_in_order r" and look: "map_of (agents r) aid = Some agent"
  shows "map_of (agents (cleanup_pass now r)) aid = (if is_stale now agent then None else Some agent)"
proof -
  have d: "distinct (map fst (agents r))" using ok by (simp add: registry_in_order_def)
  have mem: "(aid, agent) \<in> set (agents r)" using look by (rule map_of_SomeD)
  let ?S = "fst ` {kv \<in> set (agents r). is_stale now (snd kv)}"
  have S: "aid \<in> ?S \<longleftrightarrow> is_stale now agent"
  proof
    assume "aid \<in> ?S"
    then obtain kv where kv: "kv \<in> set (agents r)" "is_stale now (snd kv)" "fst kv = aid"
      by blast
    then have "(aid, snd kv) \<in> set (agents r)" by (metis prod.collapse)
    with d have "map_of (agents r) aid = Some (snd kv)" by (rule map_of_is_SomeI)
    then show "is_stale now agent" using look kv(2) by simp
  next
    assume "is_stale now agent"
    then have "(aid, agent) \<in> {kv \<in> set (agents r). is_stale now (snd kv)}" using mem by simp
    then show "aid \<in> ?S" by (rule rev_image_eqI) simp
  qed
  have "map_of (filter (\<lambda>kv. fst kv \<notin> ?S) (agents r)) aid
          = (if aid \<notin> ?S then map_of (agents r) aid else None)"
    by (rule map_of_filter_keys)
  also have "\<dots> = (if is_stale now agent then None else Some agent)"
    unfolding S look by simp
  finally show ?thesis
    unfolding cleanup_agents[OF ok, of now] .
qed

text \<open>
  Claim C9, as the code has it. For a registered agent with a last heartbeat, a round of the
  health task sets the status to offline when more than 60 seconds have elapsed since the
  heartbeat, to degraded when more than 30 and at most 60 seconds have elapsed, and leaves
  it as it is otherwise. A round of the cleanup unregisters the agent exactly when its
  status is offline and more than 5 minutes have elapsed since the last heartbeat; the time
  at which the agent was marked offline plays no part.
\<close>

theorem health_aging_and_eviction:
  assumes "registry_in_order r" and "map_of (agents r) aid = Some agent"
      and "last_heartbeat agent = Some hb"
  shows "map_of (agents (health_monitor_pass now r)) aid =
           Some (agent\<lparr>status := (if seconds 60 < now - hb then OFFLINE
                                   else if seconds 30 < now - hb then DEGRADED
                                   else status agent)\<rparr>) \<and>
         map_of (agents (cleanup_pass now r)) aid =
           (if status agent = OFFLINE \<and> seconds 300 < now - hb then None else Some agent)"
proof -
  have "age_status now agent =
          agent\<lparr>status := (if seconds 60 < now - hb then OFFLINE
                            else if seconds 30 < now - hb then DEGRADED
                            else status agent)\<rparr>"
    using assms(3) by (simp add: age_status_def Let_def)
  then have h: "map_of (agents (health_monitor_pass now r)) aid =
           Some (agent\<lparr>status := (if seconds 60 < now - hb then OFFLINE
                                   else if seconds 30 < now - hb then DEGRADED
                                   else status agent)\<rparr>)"
    using assms(2) by (simp add: health_lookup)
  have "is_stale now agent \<longleftrightarrow> status agent = OFFLINE \<and> seconds 300 < now - hb"
    using assms(3) by (simp add: is_stale_def)
  then have c: "map_of (agents (cleanup_pass now r)) aid =
           (if status agent = OFFLINE \<and> seconds 300 < now - hb then None else Some agent)"
    using cleanup_lookup[OF assms(1,2), of now] by simp
  show ?thesis using h c by simp
qed


lemma silent_agent_eq:
  "agents silent_agent = [(''a1'', sentiment_agent\<lparr>status := OFFLINE\<rparr>)] \<and>
   agent_types silent_agent ''sentiment'' = [''a1'']"
  by (simp add: silent_agent_def health_monitor_pass_def register_agent_def CentralRouter_def
        publish_def Let_def sentiment_agent_def age_status_def seconds_def)

theorem health_aging_and_eviction_witness:
  "map_of (agents silent_agent) ''a1'' = Some (sentiment_agent\<lparr>status := OFFLINE\<rparr>) \<and>
   map_of (agents (health_monitor_pass (seconds 70) silent_agent)) ''a1''
     = Some (sentiment_agent\<lparr>status := OFFLINE\<rparr>) \<and>
   map_of (agents (cleanup_pass (seconds 300) silent_agent)) ''a1''
     = Some (sentiment_agent\<lparr>status := OFFLINE\<rparr>) \<and>
   map_of (agents (cleanup_pass (seconds 301) silent_agent)) ''a1'' = None"
proof -
  have ok: "registry_in_order silent_agent"
    by (simp add: registry_in_order_def silent_agent_eq sentiment_agent_def)
  have look: "map_of (agents silent_agent) ''a1'' = Some (sentiment_agent\<lparr>status := OFFLINE\<rparr>)"
    by (simp add: silent_agent_eq)
  have hb: "last_heartbeat (sentiment_agent\<lparr>status := OFFLINE\<rparr>) = Some 0"
    by (simp add: sentiment_agent_def)
  show ?thesis
    using health_aging_and_eviction[OF ok look hb, of "seconds 70"]
      health_aging_and_eviction[OF ok look hb, of "seconds 300"]
      health_aging_and_eviction[OF ok look hb, of "seconds 301"] look
    by (simp add: seconds_def)
qed

text \<open>
  Claim C9 as stated fails: the agent is marked offline 61 seconds after its heartbeat and
  evicted by a cleanup 301 seconds after the heartbeat, 240 seconds after it was marked
  offline and not 5 minutes after.
\<close>

theorem health_aging_and_eviction_counterexample:
  "last_heartbeat sentiment_agent = Some 0 \<and>
   map_of (agents silent_agent) ''a1'' = Some (sentiment_agent\<lparr>status := OFFLINE\<rparr>) \<and>
   seconds 301 - seconds 61 < seconds (5 * 60) \<and>
   map_of (agents (cleanup_pass (seconds 301) silent_agent)) ''a1'' = None"
proof -
  have ok: "registry_in_order silent_agent"
    by (simp add: registry_in_order_def silent_agent_eq sentiment_agent_def)
  have look: "map_of (agents silent_agent) ''a1'' = Some (sentiment_agent\<lparr>status := OFFLINE\<rparr>)"
    by (simp add: silent_agent_eq)
  have stale: "is_stale (seconds 301) (sentiment_agent\<lparr>status := OFFLINE\<rparr>)"
    by (simp add: is_stale_def sentiment_agent_def seconds_def)
  have "map_of (agents (cleanup_pass (seconds 301) silent_agent)) ''a1'' = None"
    using cleanup_lookup[OF ok look, of "seconds 301"] stale by simp
  moreover have "last_heartbeat sentiment_agent = Some 0"
    by (simp add: sentiment_agent_def)
  moreover have "seconds 301 - seconds 61 < seconds (5 * 60)"
    by (simp add: seconds_def)
  ultimately show ?thesis using look by simp
qed

section \<open>Round robin selection\<close>

lemma round_robin_step:
  assumes "ags \<noteq> []"
  shows "select_agent env ags ROUND_ROBIN r =
           Inr (ags ! nat ((routing_counters r (tuple_hash env ags) + 1) mod int (length ags)),
                r\<lparr>routing_counters := (routing_counters r)
                     (tuple_hash env ags :=
                        (routing_counters r (tuple_hash env ags) + 1) mod int (length ags))\<rparr>)"
  using assms by (simp add: round_robin_def Let_def)

lemma round_robin_many:
  assumes "ags \<noteq> []"
  shows "\<exists>r'. select_many env ags ROUND_ROBIN n r =
           Inr (map (\<lambda>k. ags ! nat ((routing_counters r (tuple_hash env ags) + int k)
                                       mod int (length ags))) [1..<Suc n], r')"
proof (induction n arbitrary: r)
  case 0
  show ?case by simp
next
  case (Suc n)
  let ?N = "int (length ags)"
  let ?key = "tuple_hash env ags"
  let ?c = "routing_counters r ?key"
  let ?c1 = "(?c + 1) mod ?N"
  let ?r1 = "r\<lparr>routing_counters := (routing_counters r)(?key := ?c1)\<rparr>"
  let ?g = "\<lambda>k. ags ! nat ((?c + int k) mod ?N)"
  have sel: "select_agent env ags ROUND_ROBIN r = Inr (ags ! nat ?c1, ?r1)"
    using assms by (rule round_robin_step)
  have c1: "routing_counters ?r1 ?key = ?c1" by simp
  from Suc.IH[of ?r1] obtain r' where
    rest: "select_many env ags ROUND_ROBIN n ?r1 =
             Inr (map (\<lambda>k. ags ! nat ((?c1 + int k) mod ?N)) [1..<Suc n], r')"
    unfolding c1 by blast
  have shift: "(?c1 + int k) mod ?N = (?c + int (Suc k)) mod ?N" for k
  proof -
    have e: "(?c + 1) + int k = ?c + int (Suc k)" by simp
    have "(?c1 + int k) mod ?N = ((?c + 1) + int k) mod ?N" by (rule mod_add_left_eq)
    then show ?thesis unfolding e .
  qed
  have "map (\<lambda>k. ags ! nat ((?c1 + int k) mod ?N)) [1..<Suc n] = map (\<lambda>k. ?g (Suc k)) [1..<Suc n]"
    unfolding shift ..
  also have "\<dots> = map ?g (map Suc [1..<Suc n])" by (simp add: comp_def)
  also have "\<dots> = map ?g [Suc 1..<Suc (Suc n)]" by (simp only: map_Suc_upt)
  finally have tail: "map (\<lambda>k. ags ! nat ((?c1 + int k) mod ?N)) [1..<Suc n] = map ?g [Suc 1..<Suc (Suc n)]" .
  have "[1..<Suc (Suc n)] = 1 # [Suc 1..<Suc (Suc n)]"
    by (rule upt_conv_Cons) simp
  then have all: "map ?g [1..<Suc (Suc n)] = ags ! nat ?c1 # map ?g [Suc 1..<Suc (Suc n)]"
    by (simp del: upt_Suc)
  have "select_many env ags ROUND_ROBIN (Suc n) r = Inr (map ?g [1..<Suc (Suc n)], r')"
    unfolding all by (simp only: select_many.simps sel rest tail sum.case prod.case)
  then show ?case by blast
qed

lemma turns_permute:
  assumes "0 < N"
  shows "mset (map (\<lambda>k. nat ((c + int k) mod int N)) [1..<Suc N]) = mset [0..<N]"
proof -
  let ?g = "\<lambda>k. nat ((c + int k) mod int N)"
  have inj: "inj_on ?g (set [1..<Suc N])"
  proof (rule inj_onI)
    fix k k' assume k: "k \<in> set [1..<Suc N]" and k': "k' \<in> set [1..<Suc N]"
      and eq: "?g k = ?g k'"
    have "0 \<le> (c + int k) mod int N" "0 \<le> (c + int k') mod int N"
      using assms by simp_all
    then have "(c + int k) mod int N = (c + int k') mod int N" using eq by linarith
    then have "int N dvd (c + int k) - (c + int k')" by (simp add: mod_eq_dvd_iff)
    then have dvd: "int N dvd int k - int k'" by simp
    have "\<bar>int k - int k'\<bar> < int N" using k k' by auto
    then have "int k - int k' = 0" using dvd assms
      by (meson zdvd_not_zless abs_ge_zero dvd_abs_iff leD le_less linorder_not_less zero_less_abs_iff
          dvd_imp_le_int)
    then show "k = k'" by simp
  qed
  have d: "distinct (map ?g [1..<Suc N])"
    using inj by (simp add: distinct_map)
  have sub: "set (map ?g [1..<Suc N]) \<subseteq> set [0..<N]"
    using assms by (auto simp: nat_less_iff)
  have "card (set (map ?g [1..<Suc N])) = length (map ?g [1..<Suc N])"
    using d by (rule distinct_card)
  then have "card (set (map ?g [1..<Suc N])) = card (set [0..<N])" by simp
  then have "set (map ?g [1..<Suc N]) = set [0..<N]"
    using sub by (intro card_subset_eq) simp_all
  then show ?thesis
    using set_eq_iff_mset_eq_distinct[OF d distinct_upt, of 0 N] by blast
qed

lemma round_robin_cycle:
  assumes "ags \<noteq> []"
  shows "mset (map (\<lambda>k. ags ! nat ((c + int k) mod int (length ags))) [1..<Suc (length ags)]) = mset ags"
proof -
  let ?N = "length ags"
  let ?g = "\<lambda>k. nat ((c + int k) mod int ?N)"
  have N: "0 < ?N" using assms by simp
  have "mset (map (\<lambda>k. ags ! ?g k) [1..<Suc ?N]) = image_mset (nth ags) (mset (map ?g [1..<Suc ?N]))"
    by (simp add: comp_def multiset.map_comp)
  also have "\<dots> = image_mset (nth ags) (mset [0..<?N])"
    using turns_permute[OF N, of c] by simp
  also have "\<dots> = mset (map (nth ags) [0..<?N])" by simp
  also have "\<dots> = mset ags" by (simp add: map_nth)
  finally show ?thesis .
qed

text \<open>
  Claim C6. For a non-empty list of N candidates, N selections in a row by the round robin
  strategy, from any state of the router and with any hash function, all succeed and
  return the candidates of the list, each as often as it is in the list: when the
  candidates are distinct, each of them exactly once.
\<close>

theorem round_robin_visits_each_once:
  assumes "ags \<noteq> []"
  shows "\<exists>sel r'. select_many env ags ROUND_ROBIN (length ags) r = Inr (sel, r') \<and>
           mset sel = mset ags \<and> (distinct ags \<longrightarrow> distinct sel \<and> set sel = set ags)"
proof -
  from round_robin_many[OF assms, of env "length ags" r] obtain r' where
    run: "select_many env ags ROUND_ROBIN (length ags) r =
            Inr (map (\<lambda>k. ags ! nat ((routing_counters r (tuple_hash env ags) + int k)
                                        mod int (length ags))) [1..<Suc (length ags)], r')"
    by blast
  let ?sel = "map (\<lambda>k. ags ! nat ((routing_counters r (tuple_hash env ags) + int k)
                                        mod int (length ags))) [1..<Suc (length ags)]"
  have m: "mset ?sel = mset ags" using assms by (rule round_robin_cycle)
  have "distinct ?sel \<and> set ?sel = set ags" if "distinct ags"
    using m that by (metis mset_eq_setD mset_eq_imp_distinct_iff)
  then show ?thesis using run m by blast
qed


text \<open>Three candidates on a fresh router: the rotation starts with the second.\<close>

theorem round_robin_visits_each_once_witness:
  "map_sum fst fst (select_many calm [''a1'', ''a2'', ''a3''] ROUND_ROBIN 3 CentralRouter)
     = Inr [''a2'', ''a3'', ''a1'']"
proof -
  have h: "[''a1'', ''a2'', ''a3''] \<noteq> []" by simp
  have "map_sum fst fst
          (select_many calm [''a1'', ''a2'', ''a3''] ROUND_ROBIN (Suc (Suc (Suc 0))) CentralRouter)
     = Inr [''a2'', ''a3'', ''a1'']"
    by (simp add: round_robin_def calm_def CentralRouter_def Let_def)
  then show ?thesis
    using round_robin_visits_each_once[OF h, of calm CentralRouter]
    by (simp add: numeral_3_eq_3)
qed

section \<open>Pending response slots\<close>

lemma track_keeps_slots:
  "pending_responses mr mid \<noteq> None \<Longrightarrow> pending_responses (track_pending_response m mr) mid \<noteq> None"
  by (auto simp: track_pending_response_def split: option.splits)











lemma untracked_without_timeout:
  "response_timeout m = None \<or> response_timeout m = Some 0 \<Longrightarrow>
   pending_responses (snd (snd (router_route_message now m mr))) = pending_responses mr"
  by (auto simp: router_route_message_def Let_def track_pending_response_def)





section \<open>Delivery, breaker and retry\<close>




















end
